theory Spec2Isabelle
  imports Complex_Main "HOL-Library.Multiset"
begin

section \<open>JavaScript values that reach the manager\<close>

text \<open>
  A JavaScript number, as far as the code below looks at it: the comparison function of
  the sort and the strict equalities of the controller only ask whether a number is NaN,
  infinite, and otherwise for its sign and value. The two zeros are not told apart.
\<close>

datatype jsnum = NaN | NegInf | Fin rat | PosInf

text \<open>
  The values a caller can hand over where the TypeScript signature says \<open>boolean\<close>:
  the type is erased at run time, and \<open>saveContentUserData\<close> inspects the run-time
  tag with \<open>typeof\<close>.
\<close>

datatype jsval = JUndefined | JNull | JBool bool | JNum jsnum | JStr string | JObject

fun typeof_boolean :: "jsval \<Rightarrow> bool" where
  "typeof_boolean (JBool b) = True"
| "typeof_boolean v = False"

text \<open>The truth value JavaScript gives a value in a condition.\<close>

fun truthy :: "jsval \<Rightarrow> bool" where
  "truthy JUndefined = False"
| "truthy JNull = False"
| "truthy (JBool b) = b"
| "truthy (JNum n) = (n \<noteq> NaN \<and> n \<noteq> Fin 0)"
| "truthy (JStr s) = (s \<noteq> [])"
| "truthy JObject = True"

section \<open>Data model\<close>

type_synonym ContentId = string

text \<open>\<open>IUser\<close>: the manager only reads the field \<open>id\<close>.\<close>

record IUser =
  id_user :: string
  name_user :: string

record IContentUserData =
  contentId :: ContentId
  dataType :: string
  invalidate :: bool
  preload :: bool
  subContentId :: string
  userState :: string
  userId :: string

text \<open>
  What a rejected promise carries: the \<open>Error\<close> thrown by the argument check (with its
  message), the \<open>TypeError\<close> JavaScript raises when a method is looked up on
  \<open>undefined\<close>, and whatever the storage object rejects with.
\<close>

datatype error = Error string | TypeError | StorageError string

section \<open>The storage object\<close>

text \<open>
  \<open>IContentUserDataStorage\<close> is an interface; its implementations are not part of the
  manager. It is a record of operations over a storage state \<open>'s\<close>; each operation
  returns what its promise settles with and the storage state it leaves behind.
\<close>

record 's IContentUserDataStorage =
  storage_deleteContentUserDataByUserId ::
    "ContentId \<Rightarrow> string \<Rightarrow> IUser \<Rightarrow> 's \<Rightarrow> (error + unit) \<times> 's"
  storage_loadContentUserData ::
    "ContentId \<Rightarrow> string \<Rightarrow> string \<Rightarrow> IUser \<Rightarrow> 's \<Rightarrow> (error + IContentUserData option) \<times> 's"
  storage_listByContent ::
    "ContentId \<Rightarrow> string \<Rightarrow> 's \<Rightarrow> (error + IContentUserData list) \<times> 's"
  storage_saveContentUserData ::
    "ContentId \<Rightarrow> string \<Rightarrow> string \<Rightarrow> string \<Rightarrow> bool \<Rightarrow> bool \<Rightarrow> IUser \<Rightarrow> 's
      \<Rightarrow> (error + unit) \<times> 's"

text \<open>
  Every call the manager makes into the storage object is recorded, so that "no call
  into the storage" is a statement about the record of calls and not only about the
  storage state.
\<close>

datatype storage_call =
    DeleteByUserIdCall ContentId string IUser
  | LoadCall ContentId string string IUser
  | ListByContentCall ContentId string
  | SaveCall ContentId string string string bool bool IUser

record 's world =
  store :: 's
  calls :: "storage_call list"

definition call_storage ::
  "storage_call \<Rightarrow> ('s \<Rightarrow> (error + 'a) \<times> 's) \<Rightarrow> 's world \<Rightarrow> (error + 'a) \<times> 's world" where
  "call_storage c f w =
     (case f (store w) of (r, s') \<Rightarrow> (r, \<lparr>store = s', calls = calls w @ [c]\<rparr>))"

section \<open>ContentUserDataManager\<close>

text \<open>
  The constructor stores \<open>contentUserDataStorage\<close>, which may be \<open>undefined\<close>: that
  is \<open>None\<close> here. The calls to the logger are left out.
\<close>

definition invalid_arguments :: string where
  "invalid_arguments =
     ''saveContentUserData received invalid arguments: invalidate or preload weren't boolean''"

definition deleteContentUserDataByUserId ::
  "'s IContentUserDataStorage option \<Rightarrow> ContentId \<Rightarrow> string \<Rightarrow> IUser \<Rightarrow> 's world
    \<Rightarrow> (error + unit) \<times> 's world" where
  "deleteContentUserDataByUserId contentUserDataStorage cid uid requestingUser w =
     (case contentUserDataStorage of
        Some st \<Rightarrow>
          call_storage (DeleteByUserIdCall cid uid requestingUser)
            (storage_deleteContentUserDataByUserId st cid uid requestingUser) w
      | None \<Rightarrow> (Inr (), w))"

definition loadContentUserData ::
  "'s IContentUserDataStorage option \<Rightarrow> ContentId \<Rightarrow> string \<Rightarrow> string \<Rightarrow> IUser \<Rightarrow> 's world
    \<Rightarrow> (error + IContentUserData option) \<times> 's world" where
  "loadContentUserData contentUserDataStorage cid dt sub user w =
     (case contentUserDataStorage of
        None \<Rightarrow> (Inr None, w)
      | Some st \<Rightarrow>
          call_storage (LoadCall cid dt sub user)
            (storage_loadContentUserData st cid dt sub user) w)"

text \<open>
  \<open>saveContentUserData\<close>: the \<open>typeof\<close> check comes first; the \<open>invalidate\<close>
  branch calls the storage object without testing that there is one; only the last branch
  tests it.
\<close>

definition saveContentUserData ::
  "'s IContentUserDataStorage option \<Rightarrow> ContentId \<Rightarrow> string \<Rightarrow> string \<Rightarrow> string \<Rightarrow> jsval \<Rightarrow> jsval
    \<Rightarrow> IUser \<Rightarrow> 's world \<Rightarrow> (error + unit) \<times> 's world" where
  "saveContentUserData contentUserDataStorage cid dt sub us ivl prl user w =
     (if \<not> typeof_boolean ivl \<or> \<not> typeof_boolean prl then
        (Inl (Error invalid_arguments), w)
      else if truthy ivl then
        (case contentUserDataStorage of
           None \<Rightarrow> (Inl TypeError, w)
         | Some st \<Rightarrow>
             call_storage (DeleteByUserIdCall cid (id_user user) user)
               (storage_deleteContentUserDataByUserId st cid (id_user user) user) w)
      else
        (case contentUserDataStorage of
           Some st \<Rightarrow>
             call_storage (SaveCall cid dt sub us (truthy ivl) (truthy prl) user)
               (storage_saveContentUserData st cid dt sub us (truthy ivl) (truthy prl) user) w
         | None \<Rightarrow> (Inr (), w)))"

section \<open>The numeric sort of generateContentUserDataIntegration\<close>

subsection \<open>Number applied to a string\<close>

text \<open>
  \<open>Number(s)\<close> is modelled on the strings the sub-content ids are: the empty string,
  which JavaScript converts to 0, and the non-empty strings of ASCII digits, converted to
  the double nearest to their decimal value (ties to the even significand, infinity from
  \<open>2 ^ 1024\<close> on; this is what the engines compute, the language standard leaving the
  digits after the twentieth to them). On every other string (signs, fractions, exponents, hexadecimal
  literals, surrounding white space, \<open>Infinity\<close>, and NaN for what is no numeric
  literal) the result is that of the parameter \<open>rest\<close>; the theorems hold for every
  \<open>rest\<close>.
\<close>

definition is_digit :: "char \<Rightarrow> bool" where
  "is_digit c = (c \<in> set ''0123456789'')"

definition digit_value :: "char \<Rightarrow> nat" where
  "digit_value c = of_char c - 48"

definition decimal_value :: "string \<Rightarrow> nat" where
  "decimal_value s = foldl (\<lambda>a c. 10 * a + digit_value c) 0 s"

fun bit_length :: "nat \<Rightarrow> nat" where
  "bit_length n = (if n = 0 then 0 else Suc (bit_length (n div 2)))"

declare bit_length.simps [simp del]

definition round_to_double :: "nat \<Rightarrow> jsnum" where
  "round_to_double n =
     (let k = bit_length n in
      if k \<le> 53 then Fin (of_nat n)
      else
        let sh = k - 53;
            q = n div 2 ^ sh;
            r = n mod 2 ^ sh;
            half = 2 ^ (sh - 1);
            q' = (if half < r \<or> (r = half \<and> odd q) then q + 1 else q);
            v = q' * 2 ^ sh
        in if 2 ^ 1024 \<le> v then PosInf else Fin (of_nat v))"

definition Number_js :: "(string \<Rightarrow> jsnum) \<Rightarrow> string \<Rightarrow> jsnum" where
  "Number_js rest s =
     (if s = [] then Fin 0
      else if list_all is_digit s then round_to_double (decimal_value s)
      else rest s)"

text \<open>
  Subtraction of two numbers. The difference of two finite numbers is kept exact;
  JavaScript rounds it to a double, which has the sign of the exact difference and is
  zero only when the exact difference is, and the sort reads nothing else of it.
\<close>

fun js_minus :: "jsnum \<Rightarrow> jsnum \<Rightarrow> jsnum" where
  "js_minus NaN y = NaN"
| "js_minus x NaN = NaN"
| "js_minus PosInf PosInf = NaN"
| "js_minus NegInf NegInf = NaN"
| "js_minus PosInf y = PosInf"
| "js_minus NegInf y = NegInf"
| "js_minus (Fin a) PosInf = NegInf"
| "js_minus (Fin a) NegInf = PosInf"
| "js_minus (Fin a) (Fin b) = Fin (a - b)"

fun positive :: "jsnum \<Rightarrow> bool" where
  "positive (Fin q) = (0 < q)"
| "positive PosInf = True"
| "positive NaN = False"
| "positive NegInf = False"

fun negative :: "jsnum \<Rightarrow> bool" where
  "negative (Fin q) = (q < 0)"
| "negative NegInf = True"
| "negative NaN = False"
| "negative PosInf = False"

subsection \<open>Array.prototype.sort with a comparison function\<close>

text \<open>
  The sort is stable, and it moves \<open>x\<close> behind \<open>y\<close> only when the comparison
  function returns a positive number for them (NaN counts as 0). With a comparison
  function that is a consistent ordering, every stable sort returns the same array, and
  this insertion sort stands for it. When the comparison function is inconsistent (a NaN
  among the keys), JavaScript leaves the order to the implementation; only the fact that
  the result is a rearrangement of the array is used for such inputs. The sort works in
  place on the array the storage object returned; the model takes that array to be the
  storage object's answer and not a part of its state.
\<close>

fun insert_by :: "('a \<Rightarrow> 'a \<Rightarrow> jsnum) \<Rightarrow> 'a \<Rightarrow> 'a list \<Rightarrow> 'a list" where
  "insert_by cmp x [] = [x]"
| "insert_by cmp x (y # ys) =
     (if positive (cmp x y) then y # insert_by cmp x ys else x # y # ys)"

definition js_sort :: "('a \<Rightarrow> 'a \<Rightarrow> jsnum) \<Rightarrow> 'a list \<Rightarrow> 'a list" where
  "js_sort cmp xs = foldr (insert_by cmp) xs []"

subsection \<open>generateContentUserDataIntegration\<close>

definition compareFn :: "(string \<Rightarrow> jsnum) \<Rightarrow> IContentUserData \<Rightarrow> IContentUserData \<Rightarrow> jsnum" where
  "compareFn rest a b =
     js_minus (Number_js rest (subContentId a)) (Number_js rest (subContentId b))"

definition sortedStates :: "(string \<Rightarrow> jsnum) \<Rightarrow> IContentUserData list \<Rightarrow> IContentUserData list" where
  "sortedStates rest states = js_sort (compareFn rest) states"

text \<open>\<open>ISerializedContentUserData\<close>: the object \<open>{ [state.dataType]: state.userState }\<close>.\<close>

type_synonym ISerializedContentUserData = "string \<rightharpoonup> string"

definition serialized :: "IContentUserData \<Rightarrow> ISerializedContentUserData" where
  "serialized state = [dataType state \<mapsto> userState state]"

definition preloaded :: "(string \<Rightarrow> jsnum) \<Rightarrow> IContentUserData list \<Rightarrow> IContentUserData list" where
  "preloaded rest states = filter preload (sortedStates rest states)"

definition mappedStates ::
  "(string \<Rightarrow> jsnum) \<Rightarrow> IContentUserData list \<Rightarrow> ISerializedContentUserData list" where
  "mappedStates rest states = map serialized (preloaded rest states)"

definition generateContentUserDataIntegration ::
  "(string \<Rightarrow> jsnum) \<Rightarrow> 's IContentUserDataStorage option \<Rightarrow> ContentId \<Rightarrow> IUser \<Rightarrow> 's world
    \<Rightarrow> (error + ISerializedContentUserData list option) \<times> 's world" where
  "generateContentUserDataIntegration rest contentUserDataStorage cid user w =
     (case contentUserDataStorage of
        None \<Rightarrow> (Inr None, w)
      | Some st \<Rightarrow>
          (case call_storage (ListByContentCall cid (id_user user))
                  (storage_listByContent st cid (id_user user)) w of
             (Inl e, w') \<Rightarrow> (Inl e, w')
           | (Inr states, w') \<Rightarrow> (Inr (Some (mappedStates rest states)), w')))"

section \<open>A storage object kept in memory\<close>

definition same_key :: "ContentId \<Rightarrow> string \<Rightarrow> string \<Rightarrow> string \<Rightarrow> IContentUserData \<Rightarrow> bool" where
  "same_key cid uid dt sub r =
     (contentId r = cid \<and> userId r = uid \<and> dataType r = dt \<and> subContentId r = sub)"

definition of_content_user :: "ContentId \<Rightarrow> string \<Rightarrow> IContentUserData \<Rightarrow> bool" where
  "of_content_user cid uid r = (contentId r = cid \<and> userId r = uid)"

text \<open>
  Modelled from the spec: an implementation of \<open>IContentUserDataStorage\<close> (none is
  among the sources). It keeps the records in a list, holds at most one record for each
  key (content id, user id, data type, sub-content id), replaces the record of a key on
  save, and removes all records of a content and user on delete-by-user. It is the
  storage object of the concrete instances below.
\<close>

definition memory_storage :: "IContentUserData list IContentUserDataStorage" where
  "memory_storage =
     \<lparr>storage_deleteContentUserDataByUserId =
        (\<lambda>cid uid requestingUser s. (Inr (), filter (\<lambda>r. \<not> of_content_user cid uid r) s)),
      storage_loadContentUserData =
        (\<lambda>cid dt sub user s. (Inr (find (same_key cid (id_user user) dt sub) s), s)),
      storage_listByContent =
        (\<lambda>cid uid s. (Inr (filter (of_content_user cid uid) s), s)),
      storage_saveContentUserData =
        (\<lambda>cid dt sub us ivl prl user s.
           (Inr (),
            \<lparr>contentId = cid, dataType = dt, invalidate = ivl, preload = prl,
              subContentId = sub, userState = us, userId = id_user user\<rparr>
            # filter (\<lambda>r. \<not> same_key cid (id_user user) dt sub r) s))\<rparr>"

section \<open>The storage contract\<close>

text \<open>
  What the manager expects of a storage object, as far as the properties below need it. After a
  successful delete-by-user, no record of that content and user can be loaded; after a
  successful save (which the manager only requests with \<open>invalidate\<close> false), loading
  the same key returns a record with the saved state.
\<close>

definition delete_contract :: "'s IContentUserDataStorage \<Rightarrow> bool" where
  "delete_contract st =
     (\<forall>cid uid requestingUser s s'.
        storage_deleteContentUserDataByUserId st cid uid requestingUser s = (Inr (), s')
        \<longrightarrow> (\<forall>dt sub user. id_user user = uid
              \<longrightarrow> fst (storage_loadContentUserData st cid dt sub user s') = Inr None))"

definition upsert_contract :: "'s IContentUserDataStorage \<Rightarrow> bool" where
  "upsert_contract st =
     (\<forall>cid dt sub us prl user s s'.
        storage_saveContentUserData st cid dt sub us False prl user s = (Inr (), s')
        \<longrightarrow> (\<exists>r. fst (storage_loadContentUserData st cid dt sub user s') = Inr (Some r)
                 \<and> userState r = us))"

section \<open>ContentUserDataController\<close>

text \<open>
  The request of \<open>postContentUserData\<close>: the route parameters, the body as it comes
  off the wire (\<open>invalidate\<close> and \<open>preload\<close> are whatever the client sent) and the
  user.
\<close>

record IPostContentUserDataRequest =
  params_contentId :: ContentId
  params_dataType :: string
  params_subContentId :: string
  body_data :: string
  body_invalidate :: jsval
  body_preload :: jsval
  request_user :: IUser

text \<open>
  The manager method the controller calls, \<open>createOrUpdateContentUserData\<close>, is not a
  method of the manager above; it is the parameter \<open>createOrUpdate\<close>. The result is
  the status of the response, 200, which is sent only when the call has returned.
\<close>

definition postContentUserData ::
  "(ContentId \<Rightarrow> string \<Rightarrow> string \<Rightarrow> string \<Rightarrow> jsval \<Rightarrow> jsval \<Rightarrow> IUser \<Rightarrow> 'w \<Rightarrow> (error + unit) \<times> 'w)
    \<Rightarrow> IPostContentUserDataRequest \<Rightarrow> 'w \<Rightarrow> (error + nat) \<times> 'w" where
  "postContentUserData createOrUpdate req w =
     (case createOrUpdate (params_contentId req) (params_dataType req) (params_subContentId req)
             (body_data req)
             (JBool (body_invalidate req = JNum (Fin 1) \<or> body_invalidate req = JStr ''1''))
             (JBool (body_preload req = JNum (Fin 1) \<or> body_preload req = JStr ''1''))
             (request_user req) w of
        (Inl e, w') \<Rightarrow> (Inl e, w')
      | (Inr u, w') \<Rightarrow> (Inr 200, w'))"

text \<open>
  The coercion in the words of the specification: true for the number 1 and for the
  string "1", false for every other wire value.
\<close>

fun wire_true :: "jsval \<Rightarrow> bool" where
  "wire_true (JNum n) = (n = Fin 1)"
| "wire_true (JStr s) = (s = ''1'')"
| "wire_true v = False"

section \<open>Orders used in the statements\<close>

text \<open>The order of the numbers; NaN is comparable with nothing.\<close>

fun num_le :: "jsnum \<Rightarrow> jsnum \<Rightarrow> bool" where
  "num_le NaN y = False"
| "num_le x NaN = False"
| "num_le NegInf y = True"
| "num_le x PosInf = True"
| "num_le (Fin a) (Fin b) = (a \<le> b)"
| "num_le x y = False"

definition nonneg :: "jsnum \<Rightarrow> bool" where
  "nonneg x = (case x of Fin q \<Rightarrow> 0 \<le> q | PosInf \<Rightarrow> True | _ \<Rightarrow> False)"

definition Number_le :: "(string \<Rightarrow> jsnum) \<Rightarrow> IContentUserData \<Rightarrow> IContentUserData \<Rightarrow> bool" where
  "Number_le rest a b =
     num_le (Number_js rest (subContentId a)) (Number_js rest (subContentId b))"

section \<open>Example data\<close>

text \<open>A user and a few records of the content \<open>c1\<close>, for the concrete instances.\<close>

definition ann :: IUser where
  "ann = \<lparr>id_user = ''u1'', name_user = ''Ann''\<rparr>"

definition state_of :: "string \<Rightarrow> string \<Rightarrow> string \<Rightarrow> string \<Rightarrow> bool \<Rightarrow> IContentUserData" where
  "state_of uid dt sub us prl =
     \<lparr>contentId = ''c1'', dataType = dt, invalidate = False, preload = prl,
       subContentId = sub, userState = us, userId = uid\<rparr>"

definition three_states :: "IContentUserData list" where
  "three_states =
     [state_of ''u1'' ''state'' ''2'' ''s2'' True,
      state_of ''u2'' ''state'' ''0'' ''other'' True,
      state_of ''u1'' ''state'' ''1'' ''s1'' False,
      state_of ''u1'' ''state'' ''0'' ''s0'' True]"

definition numbered_states :: "IContentUserData list" where
  "numbered_states =
     [state_of ''u1'' ''state'' ''2'' ''s2'' True,
      state_of ''u1'' ''state'' ''10'' ''s10'' True,
      state_of ''u1'' ''state'' ''1'' ''s1'' True]"

definition on_demand_states :: "IContentUserData list" where
  "on_demand_states =
     [state_of ''u1'' ''state'' ''0'' ''s0'' False,
      state_of ''u1'' ''answers'' ''1'' ''s1'' False]"

definition shared_type_states :: "IContentUserData list" where
  "shared_type_states =
     [state_of ''u1'' ''state'' ''1'' ''s1'' True,
      state_of ''u1'' ''state'' ''0'' ''s0'' True,
      state_of ''u1'' ''state'' ''3'' ''s3'' False]"

definition empty_id_states :: "IContentUserData list" where
  "empty_id_states =
     [state_of ''u1'' ''state'' ''7'' ''s7'' True,
      state_of ''u1'' ''state'' [] ''top'' True]"

definition wire_request :: IPostContentUserDataRequest where
  "wire_request =
     \<lparr>params_contentId = ''c1'', params_dataType = ''state'', params_subContentId = ''0'',
       body_data = ''new'', body_invalidate = JStr ''true'', body_preload = JNum (Fin 1),
       request_user = ann\<rparr>"

section \<open>Auxiliary facts\<close>

subsection \<open>Rounding, sorting and the order of the keys\<close>

lemma bit_length_le: "bit_length n \<le> k \<longleftrightarrow> n < 2 ^ k"
proof (induction n arbitrary: k rule: bit_length.induct)
  case (1 n)
  show ?case
  proof (cases "n = 0")
    case True then show ?thesis by (simp add: bit_length.simps)
  next
    case False
    show ?thesis
    proof (cases k)
      case 0 with False show ?thesis by (simp add: bit_length.simps)
    next
      case (Suc j)
      have "bit_length n \<le> Suc j \<longleftrightarrow> bit_length (n div 2) \<le> j"
        using False by (subst bit_length.simps) simp
      also have "\<dots> \<longleftrightarrow> n div 2 < 2 ^ j" using 1 False by simp
      also have "\<dots> \<longleftrightarrow> n < 2 ^ Suc j" by auto
      finally show ?thesis using Suc by simp
    qed
  qed
qed

lemma round_to_double_exact: "n < 2 ^ 53 \<Longrightarrow> round_to_double n = Fin (of_nat n)"
  by (simp add: round_to_double_def bit_length_le)

lemma round_to_double_nonneg: "nonneg (round_to_double n)"
  by (simp add: round_to_double_def nonneg_def Let_def)

lemma round_to_double_positive:
  assumes "0 < n" shows "positive (round_to_double n)"
proof (cases "bit_length n \<le> 53")
  case True
  then show ?thesis using assms by (simp add: round_to_double_def)
next
  case False
  define sh where "sh = bit_length n - 53"
  have "\<not> bit_length n \<le> 52 + sh" using False by (simp add: sh_def)
  then have "2 ^ (52 + sh) \<le> n" by (simp add: bit_length_le)
  then have "2 ^ 52 * 2 ^ sh \<le> n" by (simp add: power_add)
  then have "2 ^ 52 \<le> n div 2 ^ sh"
    by (simp add: less_eq_div_iff_mult_less_eq)
  then have q: "0 < n div 2 ^ sh"
    by (metis less_le_trans zero_less_numeral zero_less_power)
  show ?thesis using False q
    by (simp add: round_to_double_def Let_def sh_def[symmetric])
qed

lemma mset_insert_by: "mset (insert_by cmp x xs) = add_mset x (mset xs)"
  by (induction xs) auto

lemma mset_js_sort: "mset (js_sort cmp xs) = mset xs"
  by (induction xs) (auto simp: js_sort_def mset_insert_by)

lemma set_insert_by: "set (insert_by cmp x xs) = insert x (set xs)"
  by (induction xs) auto

lemma not_positive_minus:
  "x \<noteq> NaN \<Longrightarrow> y \<noteq> NaN \<Longrightarrow> \<not> positive (js_minus x y) \<longleftrightarrow> num_le x y"
  by (cases x; cases y) auto

lemma num_le_trans: "num_le x y \<Longrightarrow> num_le y z \<Longrightarrow> num_le x z"
  by (cases x; cases y; cases z) auto

lemma num_le_total: "x \<noteq> NaN \<Longrightarrow> y \<noteq> NaN \<Longrightarrow> num_le x y \<or> num_le y x"
  by (cases x; cases y) auto

lemma sorted_insert_by:
  assumes "\<forall>a b. cmp a b = js_minus (key a) (key b)"
    and "key x \<noteq> NaN" and "\<forall>y\<in>set xs. key y \<noteq> NaN"
    and "sorted_wrt (\<lambda>a b. num_le (key a) (key b)) xs"
  shows "sorted_wrt (\<lambda>a b. num_le (key a) (key b)) (insert_by cmp x xs)"
  using assms(3,4)
proof (induction xs)
  case Nil then show ?case by simp
next
  case (Cons y ys)
  show ?case
  proof (cases "positive (cmp x y)")
    case True
    then have "num_le (key y) (key x)"
      using assms(1,2) Cons.prems(1) not_positive_minus[of "key x" "key y"]
        num_le_total[of "key x" "key y"] by auto
    then show ?thesis using True Cons by (auto simp: set_insert_by)
  next
    case False
    then have "num_le (key x) (key y)"
      using assms(1,2) Cons.prems(1) not_positive_minus[of "key x" "key y"] by auto
    then show ?thesis using False Cons.prems by (auto intro: num_le_trans)
  qed
qed

lemma sorted_js_sort:
  assumes "\<forall>a b. cmp a b = js_minus (key a) (key b)" and "\<forall>y\<in>set xs. key y \<noteq> NaN"
  shows "sorted_wrt (\<lambda>a b. num_le (key a) (key b)) (js_sort cmp xs)"
  using assms(2)
proof (induction xs)
  case Nil then show ?case by (simp add: js_sort_def)
next
  case (Cons x xs)
  have "set (foldr (insert_by cmp) xs []) = set xs"
    using mset_js_sort[of cmp xs] by (metis js_sort_def set_mset_mset)
  then show ?case using Cons sorted_insert_by[OF assms(1), of x "js_sort cmp xs"]
    by (simp add: js_sort_def)
qed


lemma sorted_wrt_unique:
  assumes "sorted_wrt R xs" and "sorted_wrt R ys" and "mset xs = mset ys"
    and "\<forall>x\<in>set xs. \<forall>y\<in>set xs. R x y \<and> R y x \<longrightarrow> x = y"
  shows "xs = ys"
  using assms
proof (induction xs arbitrary: ys)
  case Nil then show ?case by simp
next
  case (Cons x xs)
  then obtain y ys' where ys: "ys = y # ys'" by (cases ys) auto
  have sets: "set (x # xs) = set (y # ys')"
    using Cons.prems(3) ys by (metis set_mset_mset)
  have "x = y"
  proof (rule ccontr)
    assume ne: "x \<noteq> y"
    then have "x \<in> set ys'" and "y \<in> set xs" using sets by auto
    then have "R y x" and "R x y" using Cons.prems(1,2) ys by auto
    moreover have "y \<in> set (x # xs)" using sets by simp
    ultimately show False using Cons.prems(4) ne by auto
  qed
  moreover have "xs = ys'"
    using Cons.IH[of ys'] Cons.prems ys \<open>x = y\<close> by auto
  ultimately show ?case using ys by simp
qed

lemma Number_js_digits_not_NaN: "list_all is_digit s \<Longrightarrow> Number_js rest s \<noteq> NaN"
  using round_to_double_nonneg[of "decimal_value s"]
  by (auto simp: Number_js_def nonneg_def)

lemma Number_js_exact:
  "list_all is_digit s \<Longrightarrow> decimal_value s < 2 ^ 53
    \<Longrightarrow> Number_js rest s = Fin (of_nat (decimal_value s))"
  by (auto simp: Number_js_def round_to_double_exact decimal_value_def)

lemma sorted_sortedStates:
  assumes "\<forall>r\<in>set states. list_all is_digit (subContentId r)"
  shows "sorted_wrt (Number_le rest) (sortedStates rest states)"
proof -
  have "sorted_wrt (\<lambda>a b. num_le (Number_js rest (subContentId a)) (Number_js rest (subContentId b)))
          (js_sort (compareFn rest) states)"
    by (rule sorted_js_sort) (use assms in \<open>auto simp: compareFn_def Number_js_digits_not_NaN\<close>)
  then show ?thesis by (simp add: sortedStates_def Number_le_def[abs_def])
qed

lemma sorted_preloaded:
  assumes "\<forall>r\<in>set states. list_all is_digit (subContentId r)"
  shows "sorted_wrt (Number_le rest) (preloaded rest states)"
  unfolding preloaded_def using sorted_sortedStates[OF assms] by (rule sorted_wrt_filter)

lemma mset_preloaded: "mset (preloaded rest states) = filter_mset preload (mset states)"
  by (simp add: preloaded_def sortedStates_def mset_js_sort)

lemma generate_listed:
  assumes "storage_listByContent st cid (id_user user) (store w) = (Inr states, s')"
  shows "generateContentUserDataIntegration rest (Some st) cid user w
           = (Inr (Some (mappedStates rest states)),
              \<lparr>store = s', calls = calls w @ [ListByContentCall cid (id_user user)]\<rparr>)"
  using assms by (simp add: generateContentUserDataIntegration_def call_storage_def)


lemma set_of_mset3: "mset xs = {#a, b, c#} \<Longrightarrow> set xs = {a, b, c}"
  by (metis set_mset_mset set_mset_add_mset_insert set_mset_empty)

lemma Number_js_0: "Number_js rest ''0'' = Fin 0"
  and Number_js_1: "Number_js rest ''1'' = Fin 1"
  and Number_js_2: "Number_js rest ''2'' = Fin 2"
  and Number_js_10: "Number_js rest ''10'' = Fin 10"
  by (simp_all add: Number_js_def is_digit_def decimal_value_def digit_value_def
        round_to_double_exact)

lemma preloaded_eqI:
  assumes "\<forall>r\<in>set states. list_all is_digit (subContentId r)"
    and "mset out = filter_mset preload (mset states)"
    and "sorted_wrt (Number_le rest) out"
    and "\<forall>x\<in>set out. \<forall>y\<in>set out. Number_le rest x y \<and> Number_le rest y x \<longrightarrow> x = y"
  shows "preloaded rest states = out"
proof -
  have m: "mset out = mset (preloaded rest states)"
    using assms(2) by (simp add: mset_preloaded)
  have "out = preloaded rest states"
    by (rule sorted_wrt_unique[OF assms(3) sorted_preloaded[OF assms(1)] m assms(4)])
  then show ?thesis by (rule sym)
qed

lemma decimal_sorted_preloaded:
  assumes dig: "\<forall>r\<in>set states. list_all is_digit (subContentId r)"
    and small: "\<forall>r\<in>set states. decimal_value (subContentId r) < 2 ^ 53"
  shows "sorted_wrt (\<lambda>a b. decimal_value (subContentId a) \<le> decimal_value (subContentId b))
           (preloaded rest states)"
proof -
  have sub: "set (preloaded rest states) \<subseteq> set states"
    using mset_preloaded[of rest states] by (metis set_mset_mset set_mset_filter mem_Collect_eq subsetI)
  have "\<And>a b. a \<in> set (preloaded rest states) \<Longrightarrow> b \<in> set (preloaded rest states)
          \<Longrightarrow> Number_le rest a b
          \<Longrightarrow> decimal_value (subContentId a) \<le> decimal_value (subContentId b)"
  proof -
    fix a b
    assume "a \<in> set (preloaded rest states)" "b \<in> set (preloaded rest states)"
      and le: "Number_le rest a b"
    then have "a \<in> set states" "b \<in> set states" using sub by auto
    then have "Number_js rest (subContentId a) = Fin (of_nat (decimal_value (subContentId a)))"
      and "Number_js rest (subContentId b) = Fin (of_nat (decimal_value (subContentId b)))"
      using dig small by (simp_all add: Number_js_exact)
    then show "decimal_value (subContentId a) \<le> decimal_value (subContentId b)"
      using le by (simp add: Number_le_def)
  qed
  note mono = this
  show ?thesis
  proof (rule sorted_wrt_mono_rel[where P = "Number_le rest"])
    show "sorted_wrt (Number_le rest) (preloaded rest states)"
      by (rule sorted_preloaded[OF dig])
  qed (erule (2) mono)
qed

lemma length_preloaded: "length (preloaded rest states) = length (filter preload states)"
proof -
  have "size (mset (preloaded rest states)) = size (filter_mset preload (mset states))"
    by (simp only: mset_preloaded)
  then show ?thesis by (simp only: size_mset flip: mset_filter)
qed

lemma set_preloaded: "set (preloaded rest states) = {r \<in> set states. preload r}"
proof -
  have "set_mset (mset (preloaded rest states)) = set_mset (filter_mset preload (mset states))"
    by (simp only: mset_preloaded)
  then show ?thesis by simp
qed

lemma decimal_value_Nil: "decimal_value [] = 0"
  by (simp add: decimal_value_def)

lemma Number_js_positive:
  assumes "list_all is_digit s" and "0 < decimal_value s"
  shows "positive (Number_js rest s)"
proof -
  have "s \<noteq> []" using assms(2) by (auto simp: decimal_value_Nil)
  then show ?thesis
    using assms by (simp add: Number_js_def round_to_double_positive)
qed

lemma minus_zero_positive:
  "positive x \<Longrightarrow> negative (js_minus (Fin 0) x) \<and> positive (js_minus x (Fin 0))"
  by (cases x) auto

lemma sortedStates_pair:
  "sortedStates rest [a, b] = (if positive (compareFn rest a b) then [b, a] else [a, b])"
  by (simp add: sortedStates_def js_sort_def)

lemma memory_delete_contract: "delete_contract memory_storage"
  by (auto simp: delete_contract_def memory_storage_def find_None_iff of_content_user_def
        same_key_def)

lemma memory_upsert_contract: "upsert_contract memory_storage"
  by (auto simp: upsert_contract_def memory_storage_def same_key_def)

lemma fst_call_storage: "fst (call_storage c f w) = fst (f (store w))"
  by (simp add: call_storage_def split: prod.split)

lemma wire_true_iff: "wire_true v \<longleftrightarrow> v = JNum (Fin 1) \<or> v = JStr ''1''"
  by (cases v) auto

lemma bit_length_eq: "2 ^ k \<le> n \<Longrightarrow> n < 2 ^ Suc k \<Longrightarrow> bit_length n = Suc k"
proof -
  assume a: "2 ^ k \<le> n" and b: "n < 2 ^ Suc k"
  have "bit_length n \<le> Suc k" using b by (simp only: bit_length_le)
  moreover have "\<not> bit_length n \<le> k" using a by (simp add: bit_length_le)
  ultimately show ?thesis by simp
qed

lemma round_to_double_ties:
  "round_to_double (2 ^ 53 + 1) = Fin (2 ^ 53)"
  "round_to_double (2 ^ 53 + 3) = Fin (2 ^ 53 + 4)"
  "round_to_double (2 ^ 53 + 2) = Fin (2 ^ 53 + 2)"
proof -
  have "bit_length (2 ^ 53 + 1) = Suc 53" by (rule bit_length_eq) simp_all
  then show "round_to_double (2 ^ 53 + 1) = Fin (2 ^ 53)"
    by (simp add: round_to_double_def Let_def)
  have "bit_length (2 ^ 53 + 3) = Suc 53" by (rule bit_length_eq) simp_all
  then show "round_to_double (2 ^ 53 + 3) = Fin (2 ^ 53 + 4)"
    by (simp add: round_to_double_def Let_def)
  have "bit_length (2 ^ 53 + 2) = Suc 53" by (rule bit_length_eq) simp_all
  then show "round_to_double (2 ^ 53 + 2) = Fin (2 ^ 53 + 2)"
    by (simp add: round_to_double_def Let_def)
qed

section \<open>Properties of saveContentUserData\<close>

text \<open>
  C1. Without a storage object, a call with boolean arguments and \<open>invalidate\<close> false
  returns successfully and leaves the world as it was; with \<open>invalidate\<close> true the same
  call is rejected with a \<open>TypeError\<close>, whereas the manager's own
  \<open>deleteContentUserDataByUserId\<close> returns successfully without a storage object.
\<close>

theorem save_without_storage_invalidate_throws:
  "saveContentUserData None cid dt sub us (JBool True) (JBool p) user w = (Inl TypeError, w)
   \<and> saveContentUserData None cid dt sub us (JBool False) (JBool p) user w = (Inr (), w)
   \<and> deleteContentUserDataByUserId None cid (id_user user) user w = (Inr (), w)"
  by (simp add: saveContentUserData_def deleteContentUserDataByUserId_def)

theorem save_without_storage_invalidate_throws_witness:
  "saveContentUserData (None :: unit IContentUserDataStorage option)
      ''c1'' ''state'' ''0'' ''{}'' (JBool True) (JBool False) ann \<lparr>store = (), calls = []\<rparr>
     = (Inl TypeError, \<lparr>store = (), calls = []\<rparr>)"
  using save_without_storage_invalidate_throws
    [of "''c1''" "''state''" "''0''" "''{}''" False ann "\<lparr>store = (), calls = []\<rparr>"]
  by simp

text \<open>
  C2. When \<open>invalidate\<close> or \<open>preload\<close> is not a boolean at run time, the call is
  rejected with the invalid-arguments error, whatever the storage object is, and the
  world is unchanged: the storage state is the same and no call has been recorded.
\<close>

theorem save_rejects_non_boolean:
  assumes "\<not> typeof_boolean ivl \<or> \<not> typeof_boolean prl"
  shows "saveContentUserData storage cid dt sub us ivl prl user w
           = (Inl (Error invalid_arguments), w)"
  using assms by (simp add: saveContentUserData_def)

theorem save_rejects_non_boolean_witness:
  "\<not> typeof_boolean (JStr ''true'')
   \<and> saveContentUserData (None :: unit IContentUserDataStorage option)
        ''c1'' ''state'' ''0'' ''{}'' (JStr ''true'') (JBool False)
        ann \<lparr>store = (), calls = []\<rparr>
      = (Inl (Error invalid_arguments), \<lparr>store = (), calls = []\<rparr>)"
  using save_rejects_non_boolean
    [of "JStr ''true''" "JBool False" "None :: unit IContentUserDataStorage option"
        "''c1''" "''state''" "''0''" "''{}''"
        ann "\<lparr>store = (), calls = []\<rparr>"]
  by simp

section \<open>Properties of generateContentUserDataIntegration\<close>

text \<open>
  C4. Whatever list the storage object returns, the records that reach the result are
  exactly those with \<open>preload\<close> true, each as often as it is in the list; and when the
  list consists of a record with sub-content id "0" (preload true), one with "1" (preload
  false) and one with "2" (preload true), in any order, the result has two elements: the
  record "0", then the record "2".
\<close>

theorem generate_filters_preload:
  assumes "storage_listByContent st cid (id_user user) (store w) = (Inr states, s')"
  shows "fst (generateContentUserDataIntegration rest (Some st) cid user w)
           = Inr (Some (map serialized (preloaded rest states)))
         \<and> mset (preloaded rest states) = filter_mset preload (mset states)
         \<and> (\<forall>r0 r1 r2.
               mset states = {#r0, r1, r2#}
               \<and> subContentId r0 = ''0'' \<and> preload r0
               \<and> subContentId r1 = ''1'' \<and> \<not> preload r1
               \<and> subContentId r2 = ''2'' \<and> preload r2
               \<longrightarrow> preloaded rest states = [r0, r2])"
proof (intro conjI allI impI)
  show "fst (generateContentUserDataIntegration rest (Some st) cid user w)
           = Inr (Some (map serialized (preloaded rest states)))"
    by (simp add: generate_listed[OF assms] mappedStates_def)
  show "mset (preloaded rest states) = filter_mset preload (mset states)"
    by (rule mset_preloaded)
next
  fix r0 r1 r2
  assume h: "mset states = {#r0, r1, r2#}
               \<and> subContentId r0 = ''0'' \<and> preload r0
               \<and> subContentId r1 = ''1'' \<and> \<not> preload r1
               \<and> subContentId r2 = ''2'' \<and> preload r2"
  then have "set states = {r0, r1, r2}" by (simp add: set_of_mset3)
  then have dig: "\<forall>r\<in>set states. list_all is_digit (subContentId r)"
    using h by (simp add: is_digit_def)
  show "preloaded rest states = [r0, r2]"
  proof (rule preloaded_eqI[OF dig])
    show "mset [r0, r2] = filter_mset preload (mset states)" using h by simp
    show "sorted_wrt (Number_le rest) [r0, r2]"
      using h by (simp add: Number_le_def Number_js_0 Number_js_2)
    show "\<forall>x\<in>set [r0, r2]. \<forall>y\<in>set [r0, r2]. Number_le rest x y \<and> Number_le rest y x \<longrightarrow> x = y"
      using h by (simp add: Number_le_def Number_js_0 Number_js_2)
  qed
qed


theorem generate_filters_preload_witness:
  "fst (generateContentUserDataIntegration (\<lambda>s. NaN) (Some memory_storage) ''c1'' ann
          \<lparr>store = three_states, calls = []\<rparr>)
     = Inr (Some [[''state'' \<mapsto> ''s0''], [''state'' \<mapsto> ''s2'']])"
proof -
  let ?states = "[state_of ''u1'' ''state'' ''2'' ''s2'' True,
      state_of ''u1'' ''state'' ''1'' ''s1'' False,
      state_of ''u1'' ''state'' ''0'' ''s0'' True]"
  have l: "storage_listByContent memory_storage ''c1'' (id_user ann)
             (store \<lparr>store = three_states, calls = []\<rparr>) = (Inr ?states, three_states)"
    by (simp add: memory_storage_def three_states_def state_of_def of_content_user_def ann_def)
  note t = generate_filters_preload[OF l, of "\<lambda>s. NaN"]
  have "preloaded (\<lambda>s. NaN) ?states
      = [state_of ''u1'' ''state'' ''0'' ''s0'' True, state_of ''u1'' ''state'' ''2'' ''s2'' True]"
    by (rule t[THEN conjunct2, THEN conjunct2, rule_format,
          of _ "state_of ''u1'' ''state'' ''1'' ''s1'' False"])
       (simp add: state_of_def add_mset_commute)
  with t show ?thesis by (simp add: serialized_def state_of_def)
qed

text \<open>
  C5. When every sub-content id is a string of decimal digits, the records of the result
  are in ascending order of \<open>Number(subContentId)\<close>, which is the order of the decimal
  values when these are below \<open>2 ^ 53\<close>; and preload-true records with the sub-content
  ids "2", "10" and "1", in whatever order the storage returns them, come out in the
  order "1", "2", "10".
\<close>

theorem generate_sorts_by_number:
  assumes "storage_listByContent st cid (id_user user) (store w) = (Inr states, s')"
    and "\<forall>r\<in>set states. list_all is_digit (subContentId r)"
  shows "fst (generateContentUserDataIntegration rest (Some st) cid user w)
           = Inr (Some (map serialized (preloaded rest states)))
         \<and> sorted_wrt (Number_le rest) (preloaded rest states)
         \<and> ((\<forall>r\<in>set states. decimal_value (subContentId r) < 2 ^ 53)
              \<longrightarrow> sorted_wrt (\<lambda>a b. decimal_value (subContentId a) \<le> decimal_value (subContentId b))
                    (preloaded rest states))
         \<and> (\<forall>ra rb rc.
               mset states = {#ra, rb, rc#}
               \<and> subContentId ra = ''2'' \<and> preload ra
               \<and> subContentId rb = ''10'' \<and> preload rb
               \<and> subContentId rc = ''1'' \<and> preload rc
               \<longrightarrow> preloaded rest states = [rc, ra, rb])"
proof (intro conjI allI impI)
  show "fst (generateContentUserDataIntegration rest (Some st) cid user w)
           = Inr (Some (map serialized (preloaded rest states)))"
    by (simp add: generate_listed[OF assms(1)] mappedStates_def)
  show "sorted_wrt (Number_le rest) (preloaded rest states)"
    by (rule sorted_preloaded[OF assms(2)])
next
  assume "\<forall>r\<in>set states. decimal_value (subContentId r) < 2 ^ 53"
  then show "sorted_wrt (\<lambda>a b. decimal_value (subContentId a) \<le> decimal_value (subContentId b))
                    (preloaded rest states)"
    by (rule decimal_sorted_preloaded[OF assms(2)])
next
  fix ra rb rc
  assume h: "mset states = {#ra, rb, rc#}
               \<and> subContentId ra = ''2'' \<and> preload ra
               \<and> subContentId rb = ''10'' \<and> preload rb
               \<and> subContentId rc = ''1'' \<and> preload rc"
  show "preloaded rest states = [rc, ra, rb]"
  proof (rule preloaded_eqI[OF assms(2)])
    show "mset [rc, ra, rb] = filter_mset preload (mset states)"
      using h by (simp add: add_mset_commute)
    show "sorted_wrt (Number_le rest) [rc, ra, rb]"
      using h by (simp add: Number_le_def Number_js_1 Number_js_2 Number_js_10)
    show "\<forall>x\<in>set [rc, ra, rb]. \<forall>y\<in>set [rc, ra, rb].
            Number_le rest x y \<and> Number_le rest y x \<longrightarrow> x = y"
      using h by (simp add: Number_le_def Number_js_1 Number_js_2 Number_js_10)
  qed
qed

theorem generate_sorts_by_number_witness:
  "fst (generateContentUserDataIntegration (\<lambda>s. NaN) (Some memory_storage) ''c1'' ann
          \<lparr>store = numbered_states, calls = []\<rparr>)
     = Inr (Some [[''state'' \<mapsto> ''s1''], [''state'' \<mapsto> ''s2''], [''state'' \<mapsto> ''s10'']])"
proof -
  have l: "storage_listByContent memory_storage ''c1'' (id_user ann)
             (store \<lparr>store = numbered_states, calls = []\<rparr>) = (Inr numbered_states, numbered_states)"
    by (simp add: memory_storage_def numbered_states_def state_of_def of_content_user_def ann_def)
  have d: "\<forall>r\<in>set numbered_states. list_all is_digit (subContentId r)"
    by (simp add: numbered_states_def state_of_def is_digit_def)
  note t = generate_sorts_by_number[OF l d, of "\<lambda>s. NaN"]
  have "preloaded (\<lambda>s. NaN) numbered_states
      = [state_of ''u1'' ''state'' ''1'' ''s1'' True, state_of ''u1'' ''state'' ''2'' ''s2'' True,
         state_of ''u1'' ''state'' ''10'' ''s10'' True]"
    by (rule t[THEN conjunct2, THEN conjunct2, THEN conjunct2, rule_format])
       (simp add: numbered_states_def state_of_def)
  with t show ?thesis by (simp add: serialized_def state_of_def)
qed

text \<open>
  C6. Without a storage object the result is absent (and nothing is called); with a
  storage object that returns records none of which has \<open>preload\<close> true, the result
  is the empty sequence, after the one call that lists the records.
\<close>

theorem generate_absent_or_empty:
  "generateContentUserDataIntegration rest None cid user w = (Inr None, w)
   \<and> (storage_listByContent st cid (id_user user) (store w) = (Inr states, s')
        \<and> (\<forall>r\<in>set states. \<not> preload r)
      \<longrightarrow> generateContentUserDataIntegration rest (Some st) cid user w
            = (Inr (Some []),
               \<lparr>store = s', calls = calls w @ [ListByContentCall cid (id_user user)]\<rparr>))"
proof (intro conjI impI)
  show "generateContentUserDataIntegration rest None cid user w = (Inr None, w)"
    by (simp add: generateContentUserDataIntegration_def)
next
  assume h: "storage_listByContent st cid (id_user user) (store w) = (Inr states, s')
        \<and> (\<forall>r\<in>set states. \<not> preload r)"
  then have "mset (preloaded rest states) = {#}"
    by (simp add: mset_preloaded filter_mset_False)
  then have "preloaded rest states = []" by simp
  then show "generateContentUserDataIntegration rest (Some st) cid user w
            = (Inr (Some []),
               \<lparr>store = s', calls = calls w @ [ListByContentCall cid (id_user user)]\<rparr>)"
    using h by (simp add: generate_listed mappedStates_def)
qed

theorem generate_absent_or_empty_witness:
  "generateContentUserDataIntegration (\<lambda>s. NaN) None ''c1'' ann
       \<lparr>store = on_demand_states, calls = []\<rparr>
     = (Inr None, \<lparr>store = on_demand_states, calls = []\<rparr>)
   \<and> generateContentUserDataIntegration (\<lambda>s. NaN) (Some memory_storage) ''c1'' ann
       \<lparr>store = on_demand_states, calls = []\<rparr>
     = (Inr (Some []), \<lparr>store = on_demand_states, calls = [ListByContentCall ''c1'' ''u1'']\<rparr>)"
  using generate_absent_or_empty
    [of "\<lambda>s. NaN" "''c1''" ann "\<lparr>store = on_demand_states, calls = []\<rparr>"
        memory_storage on_demand_states on_demand_states]
  by (simp add: memory_storage_def on_demand_states_def state_of_def of_content_user_def ann_def)

text \<open>
  C7. The result is the list of the one-key mappings, from data type to user state, of
  the preload-true records of the storage object's list, one mapping for each such
  record (records with the same data type are not merged, so the result is as long as
  the list has preload-true records); and when every listed sub-content id is a digit
  string, these records stand in ascending order of \<open>Number(subContentId)\<close>.
\<close>

theorem generate_one_mapping_per_record:
  assumes "storage_listByContent st cid (id_user user) (store w) = (Inr states, s')"
  shows "\<exists>rs. fst (generateContentUserDataIntegration rest (Some st) cid user w)
                 = Inr (Some (map serialized rs))
           \<and> mset rs = filter_mset preload (mset states)
           \<and> length (map serialized rs) = length (filter preload states)
           \<and> (\<forall>i<length rs.
                 map serialized rs ! i = [dataType (rs ! i) \<mapsto> userState (rs ! i)]
                 \<and> dom (map serialized rs ! i) = {dataType (rs ! i)})
           \<and> ((\<forall>r\<in>set states. list_all is_digit (subContentId r))
                \<longrightarrow> sorted_wrt (Number_le rest) rs)"
proof (intro exI conjI allI impI)
  show "fst (generateContentUserDataIntegration rest (Some st) cid user w)
          = Inr (Some (map serialized (preloaded rest states)))"
    by (simp add: generate_listed[OF assms] mappedStates_def)
  show "mset (preloaded rest states) = filter_mset preload (mset states)"
    by (rule mset_preloaded)
  show "length (map serialized (preloaded rest states)) = length (filter preload states)"
    by (simp add: length_preloaded)
next
  fix i
  assume i: "i < length (preloaded rest states)"
  then show "map serialized (preloaded rest states) ! i
      = [dataType (preloaded rest states ! i) \<mapsto> userState (preloaded rest states ! i)]"
    by (simp add: serialized_def)
  then show "dom (map serialized (preloaded rest states) ! i) = {dataType (preloaded rest states ! i)}"
    by simp
next
  assume "\<forall>r\<in>set states. list_all is_digit (subContentId r)"
  then show "sorted_wrt (Number_le rest) (preloaded rest states)"
    by (rule sorted_preloaded)
qed

theorem generate_one_mapping_per_record_witness:
  "fst (generateContentUserDataIntegration (\<lambda>s. NaN) (Some memory_storage) ''c1'' ann
          \<lparr>store = shared_type_states, calls = []\<rparr>)
     = Inr (Some [[''state'' \<mapsto> ''s0''], [''state'' \<mapsto> ''s1'']])"
proof -
  let ?r0 = "state_of ''u1'' ''state'' ''0'' ''s0'' True"
  let ?r1 = "state_of ''u1'' ''state'' ''1'' ''s1'' True"
  have l: "storage_listByContent memory_storage ''c1'' (id_user ann)
             (store \<lparr>store = shared_type_states, calls = []\<rparr>)
           = (Inr shared_type_states, shared_type_states)"
    by (simp add: memory_storage_def shared_type_states_def state_of_def of_content_user_def ann_def)
  have d: "\<forall>r\<in>set shared_type_states. list_all is_digit (subContentId r)"
    by (simp add: shared_type_states_def state_of_def is_digit_def)
  from generate_one_mapping_per_record[OF l, of "\<lambda>s. NaN"] obtain rs where
    o: "fst (generateContentUserDataIntegration (\<lambda>s. NaN) (Some memory_storage) ''c1'' ann
              \<lparr>store = shared_type_states, calls = []\<rparr>) = Inr (Some (map serialized rs))
        \<and> mset rs = filter_mset preload (mset shared_type_states)
        \<and> length (map serialized rs) = length (filter preload shared_type_states)
        \<and> (\<forall>i<length rs.
              map serialized rs ! i = [dataType (rs ! i) \<mapsto> userState (rs ! i)]
              \<and> dom (map serialized rs ! i) = {dataType (rs ! i)})
        \<and> ((\<forall>r\<in>set shared_type_states. list_all is_digit (subContentId r))
             \<longrightarrow> sorted_wrt (Number_le (\<lambda>s. NaN)) rs)" ..
  have sorted_rs: "sorted_wrt (Number_le (\<lambda>s. NaN)) rs" using o d by simp
  have m: "mset [?r0, ?r1] = mset rs"
    using o by (simp add: shared_type_states_def state_of_def add_mset_commute)
  have s1: "sorted_wrt (Number_le (\<lambda>s. NaN)) [?r0, ?r1]"
    by (simp add: Number_le_def state_of_def Number_js_0 Number_js_1)
  have anti: "\<forall>x\<in>set [?r0, ?r1]. \<forall>y\<in>set [?r0, ?r1].
      Number_le (\<lambda>s. NaN) x y \<and> Number_le (\<lambda>s. NaN) y x \<longrightarrow> x = y"
    by (simp add: Number_le_def state_of_def Number_js_0 Number_js_1)
  have "[?r0, ?r1] = rs"
    by (rule sorted_wrt_unique[OF s1 sorted_rs m anti])
  then have "map serialized rs = [[''state'' \<mapsto> ''s0''], [''state'' \<mapsto> ''s1'']]"
    by (simp add: serialized_def state_of_def flip: \<open>[?r0, ?r1] = rs\<close>)
  then show ?thesis using o by simp
qed

text \<open>
  C10. \<open>Number\<close> of the empty string is 0, not NaN. A record with the empty
  sub-content id compares equal to a record with sub-content id "0", and the sort keeps
  the two in the order they had; it compares below every record whose sub-content id is a
  digit string of positive value and is sorted before it; and in the result of a list of
  digit-string ids, every record with the empty id stands before every record with an id
  of positive value.
\<close>

theorem empty_subContentId_counts_as_zero:
  "Number_js rest [] = Fin 0
   \<and> (subContentId e = [] \<and> subContentId z = ''0''
        \<longrightarrow> compareFn rest e z = Fin 0 \<and> compareFn rest z e = Fin 0
            \<and> sortedStates rest [e, z] = [e, z] \<and> sortedStates rest [z, e] = [z, e])
   \<and> (subContentId e = [] \<and> list_all is_digit (subContentId p) \<and> 0 < decimal_value (subContentId p)
        \<longrightarrow> negative (compareFn rest e p) \<and> positive (compareFn rest p e)
            \<and> sortedStates rest [p, e] = [e, p] \<and> sortedStates rest [e, p] = [e, p])
   \<and> ((\<forall>r\<in>set states. list_all is_digit (subContentId r))
        \<longrightarrow> (\<forall>i j. i < length (preloaded rest states) \<and> j < length (preloaded rest states)
                  \<and> subContentId (preloaded rest states ! i) = []
                  \<and> 0 < decimal_value (subContentId (preloaded rest states ! j))
               \<longrightarrow> i < j))"
proof (intro conjI impI allI)
  show e0: "Number_js rest [] = Fin 0" by (simp add: Number_js_def)
  {
    assume h: "subContentId e = [] \<and> subContentId z = ''0''"
    then show c1: "compareFn rest e z = Fin 0" and c2: "compareFn rest z e = Fin 0"
      by (simp_all add: compareFn_def e0 Number_js_0)
    show "sortedStates rest [e, z] = [e, z]" by (simp add: sortedStates_pair c1)
    show "sortedStates rest [z, e] = [z, e]" by (simp add: sortedStates_pair c2)
  }
  {
    assume h: "subContentId e = [] \<and> list_all is_digit (subContentId p)
                 \<and> 0 < decimal_value (subContentId p)"
    then have "positive (Number_js rest (subContentId p))" by (simp add: Number_js_positive)
    then have "negative (js_minus (Fin 0) (Number_js rest (subContentId p)))
               \<and> positive (js_minus (Number_js rest (subContentId p)) (Fin 0))"
      by (rule minus_zero_positive)
    then show c3: "negative (compareFn rest e p)" and c4: "positive (compareFn rest p e)"
      using h by (simp_all add: compareFn_def e0)
    have "\<not> positive (compareFn rest e p)"
      using c3 by (cases "compareFn rest e p") auto
    then show "sortedStates rest [e, p] = [e, p]" by (simp add: sortedStates_pair)
    show "sortedStates rest [p, e] = [e, p]" by (simp add: sortedStates_pair c4)
  }
  {
    fix i j
    assume dig: "\<forall>r\<in>set states. list_all is_digit (subContentId r)"
      and h: "i < length (preloaded rest states) \<and> j < length (preloaded rest states)
                  \<and> subContentId (preloaded rest states ! i) = []
                  \<and> 0 < decimal_value (subContentId (preloaded rest states ! j))"
    let ?out = "preloaded rest states"
    have "?out ! j \<in> set ?out" using h by simp
    then have "?out ! j \<in> set states" by (simp add: set_preloaded)
    then have pj: "positive (Number_js rest (subContentId (?out ! j)))"
      using dig h by (simp add: Number_js_positive)
    have ki: "Number_js rest (subContentId (?out ! i)) = Fin 0" using h by (simp add: e0)
    have nle: "\<not> Number_le rest (?out ! j) (?out ! i)"
      using pj ki by (cases "Number_js rest (subContentId (?out ! j))") (auto simp: Number_le_def)
    have "i \<noteq> j" using h by (auto simp: decimal_value_Nil)
    moreover have "\<not> j < i"
    proof
      assume "j < i"
      then have "Number_le rest (?out ! j) (?out ! i)"
        using sorted_preloaded[OF dig, of rest] h by (simp add: sorted_wrt_iff_nth_less)
      then show False using nle by simp
    qed
    ultimately show "i < j" by simp
  }
qed

theorem empty_subContentId_counts_as_zero_witness:
  "sortedStates (\<lambda>s. NaN) empty_id_states
     = [state_of ''u1'' ''state'' [] ''top'' True, state_of ''u1'' ''state'' ''7'' ''s7'' True]"
  using empty_subContentId_counts_as_zero
    [of "\<lambda>s. NaN" "state_of ''u1'' ''state'' [] ''top'' True"
        "state_of ''u1'' ''state'' ''0'' ''s0'' True"
        "state_of ''u1'' ''state'' ''7'' ''s7'' True" empty_id_states]
  by (simp add: empty_id_states_def state_of_def is_digit_def decimal_value_def digit_value_def)

section \<open>Invalidation and the save and load round trip\<close>

text \<open>
  C3. With a storage object and \<open>invalidate\<close> true (\<open>preload\<close> being a boolean, as
  the check before this branch demands), the call is exactly one call of the storage object's delete-by-user for the content and the
  calling user: its outcome is that call's outcome and does not depend on the data type,
  the sub-content id, the user state or \<open>preload\<close>. When the storage object keeps the
  delete contract and the call succeeds, loading any key of that content for that user
  afterwards returns absent.
\<close>

theorem invalidate_deletes_for_user:
  assumes "typeof_boolean prl"
  shows "saveContentUserData (Some st) cid dt sub us (JBool True) prl user w
           = call_storage (DeleteByUserIdCall cid (id_user user) user)
               (storage_deleteContentUserDataByUserId st cid (id_user user) user) w
         \<and> (typeof_boolean prl'
              \<longrightarrow> saveContentUserData (Some st) cid dt sub us (JBool True) prl user w
                  = saveContentUserData (Some st) cid dt' sub' us' (JBool True) prl' user w)
         \<and> calls (snd (saveContentUserData (Some st) cid dt sub us (JBool True) prl user w))
           = calls w @ [DeleteByUserIdCall cid (id_user user) user]
         \<and> (delete_contract st
              \<and> saveContentUserData (Some st) cid dt sub us (JBool True) prl user w = (Inr (), w')
            \<longrightarrow> (\<forall>dt2 sub2. fst (loadContentUserData (Some st) cid dt2 sub2 user w') = Inr None))"
proof (intro conjI impI allI)
  show eq: "saveContentUserData (Some st) cid dt sub us (JBool True) prl user w
     = call_storage (DeleteByUserIdCall cid (id_user user) user)
         (storage_deleteContentUserDataByUserId st cid (id_user user) user) w"
    using assms by (simp add: saveContentUserData_def)
  show "calls (snd (saveContentUserData (Some st) cid dt sub us (JBool True) prl user w))
     = calls w @ [DeleteByUserIdCall cid (id_user user) user]"
    by (simp add: eq call_storage_def split: prod.split)
  {
    assume "typeof_boolean prl'"
    then show "saveContentUserData (Some st) cid dt sub us (JBool True) prl user w
       = saveContentUserData (Some st) cid dt' sub' us' (JBool True) prl' user w"
      by (simp add: eq) (simp add: saveContentUserData_def)
  }
  {
    fix dt2 sub2
    assume h: "delete_contract st
          \<and> saveContentUserData (Some st) cid dt sub us (JBool True) prl user w = (Inr (), w')"
    then have "storage_deleteContentUserDataByUserId st cid (id_user user) user (store w)
                 = (Inr (), store w')"
      by (auto simp: eq call_storage_def split: prod.splits)
    then have "fst (storage_loadContentUserData st cid dt2 sub2 user (store w')) = Inr None"
      using h unfolding delete_contract_def by blast
    then show "fst (loadContentUserData (Some st) cid dt2 sub2 user w') = Inr None"
      by (simp add: loadContentUserData_def fst_call_storage)
  }
qed

theorem invalidate_deletes_for_user_witness:
  "saveContentUserData (Some memory_storage) ''c1'' ''state'' ''2'' ''ignored''
       (JBool True) (JBool True) ann \<lparr>store = three_states, calls = []\<rparr>
     = (Inr (), \<lparr>store = [state_of ''u2'' ''state'' ''0'' ''other'' True],
                 calls = [DeleteByUserIdCall ''c1'' ''u1'' ann]\<rparr>)
   \<and> fst (loadContentUserData (Some memory_storage) ''c1'' ''state'' ''0'' ann
           \<lparr>store = [state_of ''u2'' ''state'' ''0'' ''other'' True],
             calls = [DeleteByUserIdCall ''c1'' ''u1'' ann]\<rparr>) = Inr None"
proof -
  have s: "saveContentUserData (Some memory_storage) ''c1'' ''state'' ''2'' ''ignored''
       (JBool True) (JBool True) ann \<lparr>store = three_states, calls = []\<rparr>
     = (Inr (), \<lparr>store = [state_of ''u2'' ''state'' ''0'' ''other'' True],
                 calls = [DeleteByUserIdCall ''c1'' ''u1'' ann]\<rparr>)"
    by (simp add: saveContentUserData_def call_storage_def memory_storage_def three_states_def
          state_of_def of_content_user_def ann_def)
  have b: "typeof_boolean (JBool True)" by simp
  from invalidate_deletes_for_user
    [OF b, of memory_storage "''c1''" "''state''" "''2''" "''ignored''" ann
        "\<lparr>store = three_states, calls = []\<rparr>" "JBool False" "''answers''" "''5''" "''other''"
        "\<lparr>store = [state_of ''u2'' ''state'' ''0'' ''other'' True],
           calls = [DeleteByUserIdCall ''c1'' ''u1'' ann]\<rparr>"]
  have "\<forall>dt2 sub2. fst (loadContentUserData (Some memory_storage) ''c1'' dt2 sub2 ann
           \<lparr>store = [state_of ''u2'' ''state'' ''0'' ''other'' True],
             calls = [DeleteByUserIdCall ''c1'' ''u1'' ann]\<rparr>) = Inr None"
    using s memory_delete_contract by blast
  then show ?thesis using s by blast
qed

text \<open>
  C8. With a storage object that keeps the upsert contract, a successful
  \<open>saveContentUserData\<close> with \<open>invalidate\<close> false followed by \<open>loadContentUserData\<close>
  with the same key and user returns a record whose user state is the one saved.
\<close>

theorem save_then_load_round_trip:
  assumes "upsert_contract st"
    and "saveContentUserData (Some st) cid dt sub us (JBool False) (JBool p) user w = (Inr (), w')"
  shows "\<exists>r w''. loadContentUserData (Some st) cid dt sub user w' = (Inr (Some r), w'')
           \<and> userState r = us"
proof -
  have "storage_saveContentUserData st cid dt sub us False p user (store w) = (Inr (), store w')"
    using assms(2)
    by (auto simp: saveContentUserData_def call_storage_def split: prod.splits)
  then obtain r where
    r: "fst (storage_loadContentUserData st cid dt sub user (store w')) = Inr (Some r)"
       "userState r = us"
    using assms(1) unfolding upsert_contract_def by blast
  obtain x s'' where l: "storage_loadContentUserData st cid dt sub user (store w') = (x, s'')"
    by (cases "storage_loadContentUserData st cid dt sub user (store w')")
  then have "loadContentUserData (Some st) cid dt sub user w'
      = (Inr (Some r), \<lparr>store = s'', calls = calls w' @ [LoadCall cid dt sub user]\<rparr>)"
    using r(1) by (simp add: loadContentUserData_def call_storage_def)
  then show ?thesis using r(2) by blast
qed

theorem save_then_load_round_trip_witness:
  "\<exists>r w''. loadContentUserData (Some memory_storage) ''c1'' ''state'' ''0'' ann
       (snd (saveContentUserData (Some memory_storage) ''c1'' ''state'' ''0'' ''new''
              (JBool False) (JBool True) ann \<lparr>store = three_states, calls = []\<rparr>))
     = (Inr (Some r), w'') \<and> userState r = ''new''"
proof -
  obtain w' where
    s: "saveContentUserData (Some memory_storage) ''c1'' ''state'' ''0'' ''new''
          (JBool False) (JBool True) ann \<lparr>store = three_states, calls = []\<rparr> = (Inr (), w')"
    by (simp add: saveContentUserData_def call_storage_def memory_storage_def)
  show ?thesis
    using save_then_load_round_trip[OF memory_upsert_contract s] by (simp add: s)
qed

section \<open>Properties of the controller\<close>

text \<open>
  C9. \<open>postContentUserData\<close> hands the manager the boolean true for \<open>invalidate\<close>
  (and likewise for \<open>preload\<close>) exactly when the wire value is the number 1 or the
  string "1", and the boolean false for every other wire value, among them the boolean
  true and the string "true".
\<close>

theorem post_coerces_wire_flags:
  "postContentUserData f req w =
     (case f (params_contentId req) (params_dataType req) (params_subContentId req)
             (body_data req) (JBool (wire_true (body_invalidate req)))
             (JBool (wire_true (body_preload req))) (request_user req) w of
        (Inl e, w') \<Rightarrow> (Inl e, w')
      | (Inr u, w') \<Rightarrow> (Inr 200, w'))
   \<and> (wire_true v \<longleftrightarrow> v = JNum (Fin 1) \<or> v = JStr ''1'')
   \<and> \<not> wire_true (JBool True) \<and> \<not> wire_true (JStr ''true'')"
  by (simp add: postContentUserData_def wire_true_iff)

theorem post_coerces_wire_flags_witness:
  "postContentUserData (saveContentUserData (Some memory_storage)) wire_request
       \<lparr>store = [], calls = []\<rparr>
     = (Inr 200,
        \<lparr>store = [state_of ''u1'' ''state'' ''0'' ''new'' True],
          calls = [SaveCall ''c1'' ''state'' ''0'' ''new'' False True ann]\<rparr>)"
  using post_coerces_wire_flags
    [of "saveContentUserData (Some memory_storage)" wire_request "\<lparr>store = [], calls = []\<rparr>"
        "JStr ''true''"]
  by (simp add: wire_request_def saveContentUserData_def call_storage_def memory_storage_def
        state_of_def ann_def)



end
